theory Spec2Isabelle
  imports Main "HOL-Library.Multiset"
begin

section \<open>Data model (types.ts)\<close>

datatype Suit = HEARTS | DIAMONDS | CLUBS | SPADES

datatype Rank = ACE | TWO | THREE | FOUR | FIVE | SIX | SEVEN | EIGHT | NINE | TEN
  | JACK | QUEEN | KING

text \<open>The interface \<^verbatim>\<open>Card\<close>; its field \<^verbatim>\<open>id\<close> is called \<open>cardId\<close> here.\<close>

record Card =
  suit :: Suit
  rank :: Rank
  cardId :: string

text \<open>The union type \<^verbatim>\<open>"PLAYER" | "AI"\<close> of \<^verbatim>\<open>currentTurn\<close> and \<^verbatim>\<open>winner\<close>.\<close>

datatype Turn = PLAYER | AI

datatype GameStatus = START | PLAYING | WILD_SELECTION | GAME_OVER

datatype Difficulty = EASY | MEDIUM | HARD

record GameState =
  deck :: "Card list"
  playerHand :: "Card list"
  aiHand :: "Card list"
  discardPile :: "Card list"
  currentTurn :: Turn
  status :: GameStatus
  winner :: "Turn option"
  activeSuit :: "Suit option"
  difficulty :: Difficulty

text \<open>Reading a property of \<^verbatim>\<open>undefined\<close> throws a TypeError in the source language.\<close>

datatype error = TypeError

section \<open>Card catalog (constants.ts)\<close>

definition SUITS :: "Suit list" where
  "SUITS = [HEARTS, DIAMONDS, CLUBS, SPADES]"

definition RANKS :: "Rank list" where
  "RANKS = [ACE, TWO, THREE, FOUR, FIVE, SIX, SEVEN, EIGHT, NINE, TEN, JACK, QUEEN, KING]"

text \<open>The string values of the two enums, from which a card's \<^verbatim>\<open>id\<close> is built.\<close>

fun suitValue :: "Suit \<Rightarrow> string" where
  "suitValue HEARTS = ''HEARTS''"
| "suitValue DIAMONDS = ''DIAMONDS''"
| "suitValue CLUBS = ''CLUBS''"
| "suitValue SPADES = ''SPADES''"

fun rankValue :: "Rank \<Rightarrow> string" where
  "rankValue ACE = ''A''"
| "rankValue TWO = ''2''"
| "rankValue THREE = ''3''"
| "rankValue FOUR = ''4''"
| "rankValue FIVE = ''5''"
| "rankValue SIX = ''6''"
| "rankValue SEVEN = ''7''"
| "rankValue EIGHT = ''8''"
| "rankValue NINE = ''9''"
| "rankValue TEN = ''10''"
| "rankValue JACK = ''J''"
| "rankValue QUEEN = ''Q''"
| "rankValue KING = ''K''"

definition mkCard :: "Suit \<Rightarrow> Rank \<Rightarrow> Card" where
  "mkCard su r = \<lparr>suit = su, rank = r, cardId = rankValue r @ ''-'' @ suitValue su\<rparr>"

text \<open>The deck as \<^verbatim>\<open>createDeck\<close> builds it before shuffling: suit by suit, rank by rank.\<close>

definition orderedDeck :: "Card list" where
  "orderedDeck = concat (map (\<lambda>su. map (\<lambda>r. mkCard su r) RANKS) SUITS)"

text \<open>
  \<^verbatim>\<open>shuffle\<close>: for \<open>i\<close> from the last index down to 1, swap position \<open>i\<close> with a
  position \<open>j\<close> drawn in \<open>0..i\<close>. The random source is a parameter \<open>rnd\<close>: the draw
  \<^verbatim>\<open>Math.floor(Math.random() * (i + 1))\<close> at index \<open>i\<close> is \<open>rnd i mod (i + 1)\<close>,
  which ranges over exactly \<open>0..i\<close>.
\<close>

fun shuffleLoop :: "(nat \<Rightarrow> nat) \<Rightarrow> nat \<Rightarrow> 'a list \<Rightarrow> 'a list" where
  "shuffleLoop rnd 0 newDeck = newDeck"
| "shuffleLoop rnd (Suc k) newDeck =
     (let i = Suc k; j = rnd i mod (i + 1)
      in shuffleLoop rnd k (newDeck[i := newDeck ! j, j := newDeck ! i]))"

definition shuffle :: "(nat \<Rightarrow> nat) \<Rightarrow> 'a list \<Rightarrow> 'a list" where
  "shuffle rnd d = shuffleLoop rnd (length d - 1) d"

definition createDeck :: "(nat \<Rightarrow> nat) \<Rightarrow> Card list" where
  "createDeck rnd = shuffle rnd orderedDeck"

section \<open>Rule engine (App component)\<close>

text \<open>The state the component starts with, before any game is dealt.\<close>

definition initialState :: GameState where
  "initialState = \<lparr>deck = [], playerHand = [], aiHand = [], discardPile = [],
     currentTurn = PLAYER, status = START, winner = None, activeSuit = None,
     difficulty = MEDIUM\<rparr>"

text \<open>
  The loop of \<^verbatim>\<open>initGame\<close> that skips the EIGHTs at the front of the remaining deck:
  \<^verbatim>\<open>while (fullDeck[firstDiscardIndex].rank === Rank.EIGHT) firstDiscardIndex++\<close>.
  Running off the end reads \<^verbatim>\<open>undefined.rank\<close>.
\<close>

fun firstDiscardIndex :: "Card list \<Rightarrow> error + nat" where
  "firstDiscardIndex [] = Inl TypeError"
| "firstDiscardIndex (x # xs) =
     (if rank x = EIGHT
      then (case firstDiscardIndex xs of Inl e \<Rightarrow> Inl e | Inr i \<Rightarrow> Inr (Suc i))
      else Inr 0)"

definition initGame :: "(nat \<Rightarrow> nat) \<Rightarrow> Difficulty \<Rightarrow> error + GameState" where
  "initGame rnd d =
     (let fullDeck = createDeck rnd;
          pHand = take 8 fullDeck;
          fullDeck1 = drop 8 fullDeck;
          aHand = take 8 fullDeck1;
          fullDeck2 = drop 8 fullDeck1
      in case firstDiscardIndex fullDeck2 of
           Inl e \<Rightarrow> Inl e
         | Inr i \<Rightarrow>
             Inr \<lparr>deck = take i fullDeck2 @ drop (Suc i) fullDeck2,
                  playerHand = pHand,
                  aiHand = aHand,
                  discardPile = [fullDeck2 ! i],
                  currentTurn = PLAYER,
                  status = PLAYING,
                  winner = None,
                  activeSuit = Some (suit (fullDeck2 ! i)),
                  difficulty = d\<rparr>)"

definition surrender :: "GameState \<Rightarrow> GameState" where
  "surrender s = s\<lparr>status := GAME_OVER, winner := Some AI\<rparr>"


text \<open>
  \<^verbatim>\<open>checkPlayable\<close>: the top card is the last element of the discard pile
  (\<^verbatim>\<open>undefined\<close> when the pile is empty); its rank is read only when the card is
  no EIGHT and its suit differs from the active suit.
\<close>

definition topCard :: "GameState \<Rightarrow> Card option" where
  "topCard s = (if discardPile s = [] then None else Some (last (discardPile s)))"

definition checkPlayable :: "GameState \<Rightarrow> Card \<Rightarrow> error + bool" where
  "checkPlayable s c =
     (if rank c = EIGHT then Inr True
      else if Some (suit c) = activeSuit s then Inr True
      else (case topCard s of
              None \<Rightarrow> Inl TypeError
            | Some t \<Rightarrow> Inr (rank c = rank t)))"

text \<open>
  The computer's choice of suit after its EIGHT: count the suits of the remaining hand,
  then scan \<open>SUITS\<close> keeping the first suit whose count is strictly above the best so far
  (\<^verbatim>\<open>bestSuit = HEARTS\<close>, \<^verbatim>\<open>maxCount = -1\<close> at the start).
\<close>

definition suitCounts :: "Card list \<Rightarrow> Suit \<Rightarrow> nat" where
  "suitCounts hand = fold (\<lambda>x m. m(suit x := m (suit x) + 1)) hand (\<lambda>_. 0)"

definition bestSuit :: "Card list \<Rightarrow> Suit" where
  "bestSuit newHand =
     fst (fold (\<lambda>su (best, maxCount).
                  if int (suitCounts newHand su) > maxCount
                  then (su, int (suitCounts newHand su))
                  else (best, maxCount))
               SUITS (HEARTS, - 1))"

text \<open>
  \<^verbatim>\<open>playCard\<close> returns the state it sets at once and, when the computer has played an
  EIGHT that was not its last card, the suit captured by the update it schedules with
  \<^verbatim>\<open>setTimeout\<close>; \<open>wildTimeout\<close> is that deferred update.
\<close>

definition playCard :: "GameState \<Rightarrow> Card \<Rightarrow> bool \<Rightarrow> GameState \<times> Suit option" where
  "playCard s c isPlayer =
     (let newHand = (if isPlayer
                     then filter (\<lambda>x. cardId x \<noteq> cardId c) (playerHand s)
                     else filter (\<lambda>x. cardId x \<noteq> cardId c) (aiHand s));
          newDiscardPile = discardPile s @ [c]
      in if newHand = [] then
           (s\<lparr>playerHand := (if isPlayer then [] else playerHand s),
              aiHand := (if isPlayer then aiHand s else []),
              discardPile := newDiscardPile,
              status := GAME_OVER,
              winner := Some (if isPlayer then PLAYER else AI)\<rparr>, None)
         else if rank c = EIGHT then
           (s\<lparr>playerHand := (if isPlayer then newHand else playerHand s),
              aiHand := (if isPlayer then aiHand s else newHand),
              discardPile := newDiscardPile,
              status := (if isPlayer then WILD_SELECTION else PLAYING),
              activeSuit := (if isPlayer then activeSuit s else None)\<rparr>,
            if isPlayer then None else Some (bestSuit newHand))
         else
           (s\<lparr>playerHand := (if isPlayer then newHand else playerHand s),
              aiHand := (if isPlayer then aiHand s else newHand),
              discardPile := newDiscardPile,
              activeSuit := Some (suit c),
              currentTurn := (if isPlayer then AI else PLAYER)\<rparr>, None))"

definition wildTimeout :: "Suit \<Rightarrow> GameState \<Rightarrow> GameState" where
  "wildTimeout best s = s\<lparr>activeSuit := Some best, currentTurn := PLAYER\<rparr>"

definition drawCard :: "GameState \<Rightarrow> bool \<Rightarrow> error + GameState" where
  "drawCard s isPlayer =
     (if deck s = [] then Inr (s\<lparr>currentTurn := (if isPlayer then AI else PLAYER)\<rparr>)
      else
        (let newDeck = butlast (deck s); drawnCard = last (deck s)
         in case checkPlayable s drawnCard of
              Inl e \<Rightarrow> Inl e
            | Inr playable \<Rightarrow>
                Inr (if isPlayer
                     then s\<lparr>deck := newDeck,
                            playerHand := playerHand s @ [drawnCard],
                            currentTurn := (if playable then PLAYER else AI)\<rparr>
                     else s\<lparr>deck := newDeck,
                            aiHand := aiHand s @ [drawnCard],
                            currentTurn := (if playable then AI else PLAYER)\<rparr>)))"

definition selectWildSuit :: "GameState \<Rightarrow> Suit \<Rightarrow> GameState" where
  "selectWildSuit s su = s\<lparr>activeSuit := Some su, status := PLAYING, currentTurn := AI\<rparr>"

text \<open>The button of the game-over dialog that returns to the start screen.\<close>

definition backToMenu :: "GameState \<Rightarrow> GameState" where
  "backToMenu s = s\<lparr>status := START\<rparr>"

section \<open>Reachable states\<close>

definition allCards :: "GameState \<Rightarrow> Card list" where
  "allCards s = deck s @ playerHand s @ aiHand s @ discardPile s"

definition cardTotal :: "GameState \<Rightarrow> nat" where
  "cardTotal s =
     length (deck s) + length (playerHand s) + length (aiHand s) + length (discardPile s)"

text \<open>
  A configuration is the game state together with the queue of suit updates scheduled by
  \<^verbatim>\<open>setTimeout\<close> and not yet run (all with the same delay, so they run in the order
  they were scheduled). Transitions run one at a time, each on the current state.
  \<^verbatim>\<open>playCard\<close> is called with a card of the acting hand: the click handlers belong to the
  cards of \<^verbatim>\<open>playerHand\<close>, and the computer picks from
  \<^verbatim>\<open>aiHand.filter(checkPlayable)\<close>. No condition on turn, status or playability is
  imposed, so the relation covers at least the states the component can reach once a
  game has been dealt.
\<close>

inductive reachable :: "GameState \<times> Suit list \<Rightarrow> bool" where
  start: "initGame rnd d = Inr s \<Longrightarrow> reachable (s, [])"
| restart: "reachable (s, pending) \<Longrightarrow> initGame rnd d = Inr s' \<Longrightarrow> reachable (s', pending)"
| play: "reachable (s, pending) \<Longrightarrow>
         c \<in> set (if isPlayer then playerHand s else aiHand s) \<Longrightarrow>
         playCard s c isPlayer = (s', scheduled) \<Longrightarrow>
         reachable (s', pending @ (case scheduled of None \<Rightarrow> [] | Some best \<Rightarrow> [best]))"
| timeout: "reachable (s, best # pending) \<Longrightarrow> reachable (wildTimeout best s, pending)"
| draw: "reachable (s, pending) \<Longrightarrow> drawCard s isPlayer = Inr s' \<Longrightarrow>
         reachable (s', pending)"
| select: "reachable (s, pending) \<Longrightarrow> reachable (selectWildSuit s su, pending)"
| surrender: "reachable (s, pending) \<Longrightarrow> reachable (surrender s, pending)"
| menu: "reachable (s, pending) \<Longrightarrow> reachable (backToMenu s, pending)"

section \<open>Example states\<close>

text \<open>
  A small position: the player holds the 8 of spades and the 5 of hearts, the top card is
  the 5 of clubs and the active suit is CLUBS.
\<close>

definition sampleState :: GameState where
  "sampleState =
     \<lparr>deck = [mkCard SPADES KING, mkCard DIAMONDS SEVEN],
      playerHand = [mkCard SPADES EIGHT, mkCard HEARTS FIVE],
      aiHand = [mkCard CLUBS THREE],
      discardPile = [mkCard CLUBS FIVE],
      currentTurn = PLAYER, status = PLAYING, winner = None,
      activeSuit = Some CLUBS, difficulty = MEDIUM\<rparr>"

text \<open>The computer to move, holding the 8 of clubs, 2 of hearts, 2 and 9 of diamonds.\<close>

definition wildState :: GameState where
  "wildState =
     \<lparr>deck = [],
      playerHand = [mkCard SPADES ACE],
      aiHand = [mkCard CLUBS EIGHT, mkCard HEARTS TWO, mkCard DIAMONDS TWO,
                mkCard DIAMONDS NINE],
      discardPile = [mkCard SPADES FIVE],
      currentTurn = AI, status = PLAYING, winner = None,
      activeSuit = Some SPADES, difficulty = MEDIUM\<rparr>"

text \<open>
  A random source whose only effective swap exchanges positions 7 and 8, and the game
  \<^verbatim>\<open>initGame\<close> deals from it at difficulty EASY: the computer holds the 8 of hearts.
\<close>

definition exampleDraws :: "nat \<Rightarrow> nat" where
  "exampleDraws i = (if i = 8 then 7 else i)"

definition exampleStart :: GameState where
  "exampleStart =
     \<lparr>deck = map (mkCard DIAMONDS) [FIVE, SIX, SEVEN, EIGHT, NINE, TEN, JACK, QUEEN, KING]
             @ map (mkCard CLUBS) RANKS @ map (mkCard SPADES) RANKS,
      playerHand = map (mkCard HEARTS) [ACE, TWO, THREE, FOUR, FIVE, SIX, SEVEN, NINE],
      aiHand = map (mkCard HEARTS) [EIGHT, TEN, JACK, QUEEN, KING]
               @ map (mkCard DIAMONDS) [ACE, TWO, THREE],
      discardPile = [mkCard DIAMONDS FOUR],
      currentTurn = PLAYER, status = PLAYING, winner = None,
      activeSuit = Some DIAMONDS, difficulty = EASY\<rparr>"

text \<open>The player answers with the 4 of hearts, then the computer plays its 8 of hearts.\<close>

definition afterPlayerFour :: GameState where
  "afterPlayerFour = fst (playCard exampleStart (mkCard HEARTS FOUR) True)"

definition afterAiEight :: GameState where
  "afterAiEight = fst (playCard afterPlayerFour (mkCard HEARTS EIGHT) False)"





section \<open>Auxiliary facts\<close>

text \<open>Filtering a hand by identifier removes exactly the played card when identifiers are unique.\<close>

lemma filter_cardId_remove1:
  "distinct (map f h) \<Longrightarrow> c \<in> set h \<Longrightarrow> filter (\<lambda>x. f x \<noteq> f c) h = remove1 c h"
proof (induction h)
  case Nil
  then show ?case by simp
next
  case (Cons a h)
  show ?case
  proof (cases "a = c")
    case True
    have "f c \<notin> f ` set h"
      using Cons.prems(1) True by simp
    then have "\<forall>x \<in> set h. f x \<noteq> f c"
      by (metis imageI)
    then have "filter (\<lambda>x. f x \<noteq> f c) h = h"
      by (simp add: filter_id_conv)
    then show ?thesis using True by simp
  next
    case False
    then have "c \<in> set h" using Cons.prems(2) by simp
    moreover have "f a \<noteq> f c"
      using Cons.prems(1) \<open>c \<in> set h\<close> by auto
    ultimately show ?thesis using Cons False by simp
  qed
qed

lemma filter_cardId_nonempty:
  assumes "c \<in> set h" and "distinct (map f h)" and "1 < length h"
  shows "filter (\<lambda>x. f x \<noteq> f c) h \<noteq> []"
proof -
  have "length (remove1 c h) = length h - 1"
    using assms(1) by (simp add: length_remove1)
  then have "remove1 c h \<noteq> []" using assms(3) by auto
  then show ?thesis using filter_cardId_remove1 [OF assms(2) assms(1)] by simp
qed

text \<open>The counting loop and the scan over \<open>SUITS\<close>, in closed form.\<close>

lemma suitCounts_fold:
  "fold (\<lambda>x m. m(suit x := m (suit x) + 1)) hand m su =
     m su + length (filter (\<lambda>x. suit x = su) hand)"
  by (induction hand arbitrary: m) auto

lemma suitCounts_eq: "suitCounts hand su = length (filter (\<lambda>x. suit x = su) hand)"
  using suitCounts_fold [of hand "\<lambda>_. 0" su] by (simp add: suitCounts_def)

lemma first_max_scan:
  fixes f :: "Suit \<Rightarrow> nat"
  shows "List.find (\<lambda>su. \<forall>su' \<in> set SUITS. f su' \<le> f su) SUITS =
     Some (fst (fold (\<lambda>su (best, maxCount).
                  if int (f su) > maxCount then (su, int (f su)) else (best, maxCount))
               SUITS (HEARTS, - 1)))"
  by (auto simp: SUITS_def)

text \<open>Shuffling permutes the deck, and dealing always finds a first discard.\<close>

lemma mset_shuffleLoop: "k < length xs \<Longrightarrow> mset (shuffleLoop rnd k xs) = mset xs"
proof (induction k arbitrary: xs)
  case 0
  then show ?case by simp
next
  case (Suc k)
  let ?j = "rnd (Suc k) mod (Suc k + 1)"
  have "?j < Suc k + 1" by (rule mod_less_divisor) simp
  then have j: "?j < length xs"
    using Suc.prems by linarith
  have "mset (xs[Suc k := xs ! ?j, ?j := xs ! Suc k]) = mset xs"
    using mset_swap [OF j Suc.prems] .
  moreover have "k < length (xs[Suc k := xs ! ?j, ?j := xs ! Suc k])"
    using Suc.prems by simp
  ultimately show ?case
    using Suc.IH [of "xs[Suc k := xs ! ?j, ?j := xs ! Suc k]"] by (simp add: Let_def)
qed

lemma mset_shuffle: "mset (shuffle rnd d) = mset d"
proof (cases "d = []")
  case True
  then show ?thesis by (simp add: shuffle_def)
next
  case False
  then have "length d - 1 < length d" by (cases d) simp_all
  then show ?thesis by (simp add: shuffle_def mset_shuffleLoop)
qed

lemma mset_createDeck: "mset (createDeck rnd) = mset orderedDeck"
  by (simp add: createDeck_def mset_shuffle)

lemma firstDiscardIndex_less:
  "firstDiscardIndex xs = Inr i \<Longrightarrow> i < length xs \<and> rank (xs ! i) \<noteq> EIGHT"
  by (induction xs arbitrary: i) (auto split: if_splits sum.splits)

lemma firstDiscardIndex_total:
  "\<exists>x \<in> set xs. rank x \<noteq> EIGHT \<Longrightarrow> \<exists>i. firstDiscardIndex xs = Inr i"
proof (induction xs)
  case Nil
  then show ?case by simp
next
  case (Cons a xs)
  show ?case
  proof (cases "rank a = EIGHT")
    case True
    then have "\<exists>x \<in> set xs. rank x \<noteq> EIGHT" using Cons.prems by auto
    then obtain i where "firstDiscardIndex xs = Inr i" using Cons.IH by blast
    then show ?thesis using True by simp
  next
    case False
    then show ?thesis by simp
  qed
qed


lemma distinct_ids: "distinct (map cardId orderedDeck)"
  by code_simp

lemma length_orderedDeck: "length orderedDeck = 52"
  by code_simp

lemma eights_orderedDeck: "length (filter (\<lambda>x. rank x = EIGHT) orderedDeck) = 4"
  by code_simp

lemma initGame_Inr:
  assumes "initGame rnd d = Inr s"
  shows "\<exists>i. firstDiscardIndex (drop 8 (drop 8 (createDeck rnd))) = Inr i \<and>
     s = \<lparr>deck = take i (drop 8 (drop 8 (createDeck rnd)))
                   @ drop (Suc i) (drop 8 (drop 8 (createDeck rnd))),
           playerHand = take 8 (createDeck rnd),
           aiHand = take 8 (drop 8 (createDeck rnd)),
           discardPile = [drop 8 (drop 8 (createDeck rnd)) ! i],
           currentTurn = PLAYER, status = PLAYING, winner = None,
           activeSuit = Some (suit (drop 8 (drop 8 (createDeck rnd)) ! i)),
           difficulty = d\<rparr>"
  using assms by (simp add: initGame_def Let_def split: sum.splits)

lemma mset_take_nth_drop:
  assumes "i < length r"
  shows "mset (take i r @ drop (Suc i) r) + {#r ! i#} = mset r"
proof -
  have "r = take i r @ r ! i # drop (Suc i) r"
    using assms by (rule id_take_nth_drop)
  then have "mset r = mset (take i r @ r ! i # drop (Suc i) r)" by simp
  then show ?thesis by simp
qed

lemma initGame_mset:
  assumes "initGame rnd d = Inr s"
  shows "mset (allCards s) = mset orderedDeck"
proof -
  define r where "r = drop 8 (drop 8 (createDeck rnd))"
  obtain i where i: "firstDiscardIndex r = Inr i"
    and dk: "deck s = take i r @ drop (Suc i) r"
    and ph: "playerHand s = take 8 (createDeck rnd)"
    and ah: "aiHand s = take 8 (drop 8 (createDeck rnd))"
    and dp: "discardPile s = [r ! i]"
    using initGame_Inr [OF assms] unfolding r_def by auto
  have "i < length r" using firstDiscardIndex_less [OF i] by simp
  then have a: "mset (take i r @ drop (Suc i) r) + {#r ! i#} = mset r"
    by (rule mset_take_nth_drop)
  have "createDeck rnd = take 8 (createDeck rnd) @ take 8 (drop 8 (createDeck rnd)) @ r"
    unfolding r_def by (simp only: append_take_drop_id)
  then have b: "mset (createDeck rnd) =
      mset (take 8 (createDeck rnd)) + mset (take 8 (drop 8 (createDeck rnd))) + mset r"
    by (metis mset_append add.assoc)
  have "mset (allCards s) = mset (take i r @ drop (Suc i) r)
      + mset (take 8 (createDeck rnd)) + mset (take 8 (drop 8 (createDeck rnd))) + {#r ! i#}"
    by (simp add: allCards_def dk ph ah dp)
  also have "\<dots> = mset (take 8 (createDeck rnd)) + mset (take 8 (drop 8 (createDeck rnd)))
      + (mset (take i r @ drop (Suc i) r) + {#r ! i#})"
    by (simp only: ac_simps)
  also have "\<dots> = mset (createDeck rnd)"
    by (simp only: a b)
  finally show ?thesis by (simp add: mset_createDeck)
qed

lemma initGame_total: "\<exists>s. initGame rnd d = Inr s"
proof -
  define r where "r = drop 8 (drop 8 (createDeck rnd))"
  have "size (mset (createDeck rnd)) = size (mset orderedDeck)"
    by (simp only: mset_createDeck)
  then have len: "length (createDeck rnd) = 52"
    by (simp add: length_orderedDeck)
  have "length (filter (\<lambda>x. rank x = EIGHT) (createDeck rnd)) =
        size (filter_mset (\<lambda>x. rank x = EIGHT) (mset (createDeck rnd)))"
    by (simp only: mset_filter [symmetric] size_mset)
  also have "\<dots> = size (filter_mset (\<lambda>x. rank x = EIGHT) (mset orderedDeck))"
    by (simp only: mset_createDeck)
  also have "\<dots> = length (filter (\<lambda>x. rank x = EIGHT) orderedDeck)"
    by (simp only: mset_filter [symmetric] size_mset)
  finally have e: "length (filter (\<lambda>x. rank x = EIGHT) (createDeck rnd)) = 4"
    by (simp only: eights_orderedDeck)
  have "createDeck rnd = take 16 (createDeck rnd) @ r"
    by (simp add: r_def)
  then have "filter (\<lambda>x. rank x = EIGHT) (createDeck rnd) =
      filter (\<lambda>x. rank x = EIGHT) (take 16 (createDeck rnd)) @ filter (\<lambda>x. rank x = EIGHT) r"
    by (metis filter_append)
  then have "length (filter (\<lambda>x. rank x = EIGHT) r) \<le> 4"
    using e by simp
  moreover have "length r = 36" using len by (simp add: r_def)
  ultimately have "filter (\<lambda>x. rank x = EIGHT) r \<noteq> r" by auto
  then have "\<exists>x \<in> set r. rank x \<noteq> EIGHT" by (simp add: filter_id_conv)
  then obtain i where "firstDiscardIndex r = Inr i"
    using firstDiscardIndex_total by blast
  then show ?thesis by (simp add: initGame_def Let_def r_def)
qed

text \<open>Playing a card of the acting hand and drawing keep the cards of the game.\<close>

lemma playCard_mset:
  assumes "c \<in> set (if isPlayer then playerHand s else aiHand s)"
    and "distinct (map cardId (allCards s))"
  shows "mset (allCards (fst (playCard s c isPlayer))) = mset (allCards s)"
proof (cases isPlayer)
  case True
  then have m: "c \<in> set (playerHand s)" using assms(1) by simp
  have "distinct (map cardId (playerHand s))"
    using assms(2) by (simp add: allCards_def)
  then have f: "filter (\<lambda>x. cardId x \<noteq> cardId c) (playerHand s) = remove1 c (playerHand s)"
    using m by (rule filter_cardId_remove1)
  have r: "mset (remove1 c (playerHand s)) + {#c#} = mset (playerHand s)"
    using m by simp
  have e: "remove1 c (playerHand s) = [] \<Longrightarrow> mset (playerHand s) = {#c#}"
    using r by simp
  show ?thesis
    using True r e by (auto simp: playCard_def allCards_def f Let_def)
next
  case False
  then have m: "c \<in> set (aiHand s)" using assms(1) by simp
  have "distinct (map cardId (aiHand s))"
    using assms(2) by (simp add: allCards_def)
  then have f: "filter (\<lambda>x. cardId x \<noteq> cardId c) (aiHand s) = remove1 c (aiHand s)"
    using m by (rule filter_cardId_remove1)
  have r: "mset (remove1 c (aiHand s)) + {#c#} = mset (aiHand s)"
    using m by simp
  have e: "remove1 c (aiHand s) = [] \<Longrightarrow> mset (aiHand s) = {#c#}"
    using r by simp
  show ?thesis
    using False r e by (auto simp: playCard_def allCards_def f Let_def)
qed

lemma drawCard_mset:
  assumes "drawCard s isPlayer = Inr s'"
  shows "mset (allCards s') = mset (allCards s)"
proof (cases "deck s = []")
  case True
  then show ?thesis using assms by (auto simp: drawCard_def allCards_def)
next
  case False
  then have "deck s = butlast (deck s) @ [last (deck s)]" by simp
  then have "mset (deck s) = mset (butlast (deck s)) + {#last (deck s)#}"
    by (metis mset_append mset.simps(2) mset.simps(1) add_mset_add_single union_mset_add_mset_right)
  then show ?thesis
    using assms False
    by (auto simp: drawCard_def allCards_def Let_def split: sum.splits if_splits)
qed

text \<open>The cards of every reachable configuration are those of the ordered deck.\<close>

lemma distinct_ids_of_mset:
  assumes "mset xs = mset orderedDeck"
  shows "distinct (map cardId xs)"
proof -
  have "mset (map cardId xs) = mset (map cardId orderedDeck)"
    using assms by (metis mset_map)
  then show ?thesis
    using distinct_ids by (metis mset_eq_imp_distinct_iff)
qed

lemma reachable_cards: "reachable cfg \<Longrightarrow> mset (allCards (fst cfg)) = mset orderedDeck"
proof (induction rule: reachable.induct)
  case (start rnd d s)
  then show ?case by (simp add: initGame_mset)
next
  case (restart s pending rnd d s')
  then show ?case by (simp add: initGame_mset)
next
  case (play s pending c isPlayer s' scheduled)
  have "distinct (map cardId (allCards s))"
    using play.IH by (simp add: distinct_ids_of_mset)
  then have "mset (allCards (fst (playCard s c isPlayer))) = mset (allCards s)"
    using play.hyps(2) by (simp add: playCard_mset)
  then show ?case using play.IH play.hyps(3) by simp
next
  case (timeout s best pending)
  then show ?case by (simp add: wildTimeout_def allCards_def)
next
  case (draw s pending isPlayer s')
  then show ?case using drawCard_mset [of s isPlayer s'] by simp
next
  case (select s pending su)
  then show ?case by (simp add: selectWildSuit_def allCards_def)
next
  case (surrender s pending)
  then show ?case by (simp add: surrender_def allCards_def)
next
  case (menu s pending)
  then show ?case by (simp add: backToMenu_def allCards_def)
qed

text \<open>The deal from \<open>exampleDraws\<close>.\<close>

lemma initGame_example: "initGame exampleDraws EASY = Inr exampleStart"
  by code_simp

text \<open>The active suit is null only while a deferred suit update is pending.\<close>

lemma playCard_activeSuit:
  assumes "playCard s c isPlayer = (s', scheduled)" and "activeSuit s' = None"
  shows "scheduled \<noteq> None \<or> activeSuit s = None"
  using assms by (auto simp: playCard_def Let_def split: if_splits)

lemma drawCard_activeSuit:
  assumes "drawCard s isPlayer = Inr s'"
  shows "activeSuit s' = activeSuit s"
  using assms by (auto simp: drawCard_def Let_def split: if_splits sum.splits)

lemma reachable_activeSuit:
  "reachable cfg \<Longrightarrow> activeSuit (fst cfg) = None \<longrightarrow> snd cfg \<noteq> []"
proof (induction rule: reachable.induct)
  case (start rnd d s)
  then show ?case using initGame_Inr [of rnd d s] by auto
next
  case (restart s pending rnd d s')
  then show ?case using initGame_Inr [of rnd d s'] by auto
next
  case (play s pending c isPlayer s' scheduled)
  then show ?case
    using playCard_activeSuit [of s c isPlayer s' scheduled] by (cases scheduled) auto
next
  case (timeout s best pending)
  then show ?case by (simp add: wildTimeout_def)
next
  case (draw s pending isPlayer s')
  then show ?case using drawCard_activeSuit [of s isPlayer s'] by simp
next
  case (select s pending su)
  then show ?case by (simp add: selectWildSuit_def)
next
  case (surrender s pending)
  then show ?case by (simp add: surrender_def)
next
  case (menu s pending)
  then show ?case by (simp add: backToMenu_def)
qed

text \<open>The two moves after the deal from \<open>exampleDraws\<close>.\<close>

lemma afterPlayerFour_eq:
  "playCard exampleStart (mkCard HEARTS FOUR) True = (afterPlayerFour, None)"
  by code_simp

lemma afterAiEight_eq:
  "playCard afterPlayerFour (mkCard HEARTS EIGHT) False = (afterAiEight, Some HEARTS)"
  by code_simp



lemma reachable_afterPlayerFour: "reachable (afterPlayerFour, [])"
proof -
  have r0: "reachable (exampleStart, [])"
    using initGame_example by (rule reachable.start)
  have m1: "mkCard HEARTS FOUR \<in> set (if True then playerHand exampleStart else aiHand exampleStart)"
    by code_simp
  show ?thesis
    using reachable.play [OF r0 m1 afterPlayerFour_eq] by simp
qed


section \<open>Legality of a card\<close>

text \<open>
  C2. On a discard pile whose last card is \<open>t\<close>, \<^verbatim>\<open>checkPlayable\<close> returns true for
  every card of rank EIGHT, whatever \<open>t\<close> and the active suit are; for any other card it
  returns true exactly when the card's suit is the active suit or its rank is the rank
  of \<open>t\<close>.
\<close>

theorem checkPlayable_spec:
  assumes "discardPile s = ds @ [t]"
  shows "checkPlayable s c =
           Inr (rank c = EIGHT \<or> Some (suit c) = activeSuit s \<or> rank c = rank t)"
  using assms by (simp add: checkPlayable_def topCard_def)

theorem checkPlayable_spec_witness:
  "discardPile sampleState = [] @ [mkCard CLUBS FIVE] \<and>
   checkPlayable sampleState (mkCard HEARTS FIVE) = Inr True \<and>
   checkPlayable sampleState (mkCard SPADES EIGHT) = Inr True \<and>
   checkPlayable sampleState (mkCard DIAMONDS SEVEN) = Inr False"
proof -
  have h: "discardPile sampleState = [] @ [mkCard CLUBS FIVE]"
    by (simp add: sampleState_def)
  have a: "activeSuit sampleState = Some CLUBS"
    by (simp add: sampleState_def)
  show ?thesis
    using h a checkPlayable_spec [OF h, of "mkCard HEARTS FIVE"]
      checkPlayable_spec [OF h, of "mkCard SPADES EIGHT"]
      checkPlayable_spec [OF h, of "mkCard DIAMONDS SEVEN"]
    by (simp add: mkCard_def)
qed

section \<open>Playing a card\<close>

text \<open>
  C3. In a PLAYING state, when an actor plays a card that is no EIGHT from a hand (with
  unique identifiers) that holds more than this card, the active suit becomes the
  card's suit, the turn goes to the other actor and the status stays PLAYING. Neither the
  turn nor the playability of the card is needed for this.
\<close>

theorem playCard_ordinary:
  assumes "status s = PLAYING" and "rank c \<noteq> EIGHT"
    and "c \<in> set (if isPlayer then playerHand s else aiHand s)"
    and "distinct (map cardId (if isPlayer then playerHand s else aiHand s))"
    and "1 < length (if isPlayer then playerHand s else aiHand s)"
  shows "activeSuit (fst (playCard s c isPlayer)) = Some (suit c) \<and>
         currentTurn (fst (playCard s c isPlayer)) = (if isPlayer then AI else PLAYER) \<and>
         status (fst (playCard s c isPlayer)) = PLAYING"
proof -
  have "filter (\<lambda>x. cardId x \<noteq> cardId c) (if isPlayer then playerHand s else aiHand s) \<noteq> []"
    using assms(3-5) by (rule filter_cardId_nonempty)
  then show ?thesis
    using assms(1,2) by (cases isPlayer) (simp_all add: playCard_def)
qed

theorem playCard_ordinary_witness:
  "status sampleState = PLAYING \<and> rank (mkCard HEARTS FIVE) \<noteq> EIGHT \<and>
   mkCard HEARTS FIVE \<in> set (playerHand sampleState) \<and>
   distinct (map cardId (playerHand sampleState)) \<and>
   1 < length (playerHand sampleState) \<and>
   activeSuit (fst (playCard sampleState (mkCard HEARTS FIVE) True)) = Some HEARTS \<and>
   currentTurn (fst (playCard sampleState (mkCard HEARTS FIVE) True)) = AI \<and>
   status (fst (playCard sampleState (mkCard HEARTS FIVE) True)) = PLAYING"
proof -
  have h1: "status sampleState = PLAYING" by (simp add: sampleState_def)
  have h2: "rank (mkCard HEARTS FIVE) \<noteq> EIGHT" by (simp add: mkCard_def)
  have h3: "mkCard HEARTS FIVE \<in> set (if True then playerHand sampleState else aiHand sampleState)"
    by (simp add: sampleState_def)
  have h4: "distinct (map cardId (if True then playerHand sampleState else aiHand sampleState))"
    by (simp add: sampleState_def mkCard_def)
  have h5: "1 < length (if True then playerHand sampleState else aiHand sampleState)"
    by (simp add: sampleState_def)
  show ?thesis
    using h1 h2 h3 h4 h5 playCard_ordinary [OF h1 h2 h3 h4 h5]
    by (simp add: mkCard_def)
qed

text \<open>
  C4. When the acting hand is exactly the card played, the game is over and the actor has
  won; the card has left the hand for the end of the discard pile; the turn, the active
  suit, the deck, the other hand and the difficulty are as before, and nothing is
  scheduled.
\<close>

theorem playCard_last_card:
  assumes "(if isPlayer then playerHand s else aiHand s) = [c]"
  shows "status (fst (playCard s c isPlayer)) = GAME_OVER \<and>
         winner (fst (playCard s c isPlayer)) = Some (if isPlayer then PLAYER else AI) \<and>
         (if isPlayer then playerHand (fst (playCard s c isPlayer))
          else aiHand (fst (playCard s c isPlayer))) = [] \<and>
         discardPile (fst (playCard s c isPlayer)) = discardPile s @ [c] \<and>
         currentTurn (fst (playCard s c isPlayer)) = currentTurn s \<and>
         activeSuit (fst (playCard s c isPlayer)) = activeSuit s \<and>
         deck (fst (playCard s c isPlayer)) = deck s \<and>
         (if isPlayer then aiHand (fst (playCard s c isPlayer))
          else playerHand (fst (playCard s c isPlayer))) =
           (if isPlayer then aiHand s else playerHand s) \<and>
         difficulty (fst (playCard s c isPlayer)) = difficulty s \<and>
         snd (playCard s c isPlayer) = None"
  using assms by (cases isPlayer) (simp_all add: playCard_def)

theorem playCard_last_card_witness:
  "aiHand sampleState = [mkCard CLUBS THREE] \<and>
   status (fst (playCard sampleState (mkCard CLUBS THREE) False)) = GAME_OVER \<and>
   winner (fst (playCard sampleState (mkCard CLUBS THREE) False)) = Some AI \<and>
   aiHand (fst (playCard sampleState (mkCard CLUBS THREE) False)) = [] \<and>
   discardPile (fst (playCard sampleState (mkCard CLUBS THREE) False)) =
     [mkCard CLUBS FIVE, mkCard CLUBS THREE] \<and>
   currentTurn (fst (playCard sampleState (mkCard CLUBS THREE) False)) = PLAYER \<and>
   activeSuit (fst (playCard sampleState (mkCard CLUBS THREE) False)) = Some CLUBS"
proof -
  have h: "(if False then playerHand sampleState else aiHand sampleState) = [mkCard CLUBS THREE]"
    by (simp add: sampleState_def)
  have d: "discardPile sampleState = [mkCard CLUBS FIVE]"
    "currentTurn sampleState = PLAYER" "activeSuit sampleState = Some CLUBS"
    by (simp_all add: sampleState_def)
  show ?thesis
    using h d playCard_last_card [OF h] by simp
qed

section \<open>Drawing a card\<close>

text \<open>
  C5. On an empty deck \<^verbatim>\<open>drawCard\<close> returns normally: the state is as before (deck,
  both hands and discard pile included) except that the turn goes to the other actor,
  whatever the turn was.
\<close>

theorem drawCard_empty_deck:
  assumes "deck s = []"
  shows "drawCard s isPlayer = Inr (s\<lparr>currentTurn := (if isPlayer then AI else PLAYER)\<rparr>)"
  using assms by (simp add: drawCard_def)

theorem drawCard_empty_deck_witness:
  "deck wildState = [] \<and> drawCard wildState False = Inr (wildState\<lparr>currentTurn := PLAYER\<rparr>)"
proof -
  have h: "deck wildState = []" by (simp add: wildState_def)
  show ?thesis using h drawCard_empty_deck [OF h, of False] by simp
qed

text \<open>
  C6. On a deck that ends with the card \<open>x\<close> (and a discard pile with a top card \<open>t\<close>),
  \<^verbatim>\<open>drawCard\<close> removes \<open>x\<close> from the end of the deck and appends it to the actor's
  hand; the turn stays with the actor exactly when \<^verbatim>\<open>checkPlayable\<close> holds of \<open>x\<close>
  in the state before the draw, and goes to the other actor otherwise.
\<close>

theorem drawCard_nonempty_deck:
  assumes "deck s = d @ [x]" and "discardPile s = ds @ [t]"
  shows "drawCard s isPlayer =
     Inr (if isPlayer
          then s\<lparr>deck := d, playerHand := playerHand s @ [x],
                 currentTurn := (if checkPlayable s x = Inr True then PLAYER else AI)\<rparr>
          else s\<lparr>deck := d, aiHand := aiHand s @ [x],
                 currentTurn := (if checkPlayable s x = Inr True then AI else PLAYER)\<rparr>)"
  using assms by (auto simp: drawCard_def checkPlayable_def topCard_def)

theorem drawCard_nonempty_deck_witness:
  "deck sampleState = [mkCard SPADES KING] @ [mkCard DIAMONDS SEVEN] \<and>
   discardPile sampleState = [] @ [mkCard CLUBS FIVE] \<and>
   drawCard sampleState True =
     Inr (sampleState\<lparr>deck := [mkCard SPADES KING],
            playerHand := playerHand sampleState @ [mkCard DIAMONDS SEVEN],
            currentTurn := AI\<rparr>)"
proof -
  have h1: "deck sampleState = [mkCard SPADES KING] @ [mkCard DIAMONDS SEVEN]"
    by (simp add: sampleState_def)
  have h2: "discardPile sampleState = [] @ [mkCard CLUBS FIVE]"
    by (simp add: sampleState_def)
  have p: "checkPlayable sampleState (mkCard DIAMONDS SEVEN) \<noteq> Inr True"
    by (simp add: checkPlayable_def topCard_def sampleState_def mkCard_def)
  show ?thesis
    using h1 h2 p drawCard_nonempty_deck [OF h1 h2, of True] by simp
qed

section \<open>The computer's wild suit\<close>

text \<open>
  C10. For every hand, \<open>bestSuit\<close> is the first suit in the order of \<open>SUITS\<close> (HEARTS,
  DIAMONDS, CLUBS, SPADES) whose number of cards in the hand is not exceeded by any suit;
  for the hand 2 of hearts, 2 of diamonds, 9 of diamonds it is DIAMONDS; and when the
  computer plays an EIGHT that leaves it the non-empty hand \<open>hand\<close>, the suit that
  \<^verbatim>\<open>playCard\<close> schedules, and that the deferred update makes the active suit, is
  \<open>bestSuit hand\<close>.
\<close>

theorem bestSuit_spec:
  "List.find (\<lambda>su. \<forall>su' \<in> set SUITS.
        length (filter (\<lambda>x. suit x = su') hand) \<le> length (filter (\<lambda>x. suit x = su) hand)) SUITS
     = Some (bestSuit hand) \<and>
   bestSuit [mkCard HEARTS TWO, mkCard DIAMONDS TWO, mkCard DIAMONDS NINE] = DIAMONDS \<and>
   (rank c = EIGHT \<longrightarrow> filter (\<lambda>x. cardId x \<noteq> cardId c) (aiHand s) = hand \<longrightarrow> hand \<noteq> [] \<longrightarrow>
      snd (playCard s c False) = Some (bestSuit hand) \<and>
      activeSuit (wildTimeout (bestSuit hand) (fst (playCard s c False))) = Some (bestSuit hand))"
proof -
  have a: "List.find (\<lambda>su. \<forall>su' \<in> set SUITS.
        length (filter (\<lambda>x. suit x = su') hand) \<le> length (filter (\<lambda>x. suit x = su) hand)) SUITS
     = Some (bestSuit hand)"
    using first_max_scan [of "suitCounts hand"] by (simp add: bestSuit_def suitCounts_eq)
  have b: "bestSuit [mkCard HEARTS TWO, mkCard DIAMONDS TWO, mkCard DIAMONDS NINE] = DIAMONDS"
    by (simp add: bestSuit_def suitCounts_def SUITS_def mkCard_def)
  have c: "rank c = EIGHT \<longrightarrow> filter (\<lambda>x. cardId x \<noteq> cardId c) (aiHand s) = hand \<longrightarrow> hand \<noteq> [] \<longrightarrow>
      snd (playCard s c False) = Some (bestSuit hand) \<and>
      activeSuit (wildTimeout (bestSuit hand) (fst (playCard s c False))) = Some (bestSuit hand)"
    by (simp add: playCard_def wildTimeout_def)
  from a b c show ?thesis by blast
qed

theorem bestSuit_spec_witness:
  "rank (mkCard CLUBS EIGHT) = EIGHT \<and>
   filter (\<lambda>x. cardId x \<noteq> cardId (mkCard CLUBS EIGHT)) (aiHand wildState) =
     [mkCard HEARTS TWO, mkCard DIAMONDS TWO, mkCard DIAMONDS NINE] \<and>
   List.find (\<lambda>su. \<forall>su' \<in> set SUITS.
        length (filter (\<lambda>x. suit x = su')
                 [mkCard HEARTS TWO, mkCard DIAMONDS TWO, mkCard DIAMONDS NINE])
        \<le> length (filter (\<lambda>x. suit x = su)
                 [mkCard HEARTS TWO, mkCard DIAMONDS TWO, mkCard DIAMONDS NINE])) SUITS
     = Some DIAMONDS \<and>
   snd (playCard wildState (mkCard CLUBS EIGHT) False) = Some DIAMONDS \<and>
   activeSuit (wildTimeout DIAMONDS (fst (playCard wildState (mkCard CLUBS EIGHT) False)))
     = Some DIAMONDS"
proof -
  have h1: "rank (mkCard CLUBS EIGHT) = EIGHT" by (simp add: mkCard_def)
  have h2: "filter (\<lambda>x. cardId x \<noteq> cardId (mkCard CLUBS EIGHT)) (aiHand wildState) =
     [mkCard HEARTS TWO, mkCard DIAMONDS TWO, mkCard DIAMONDS NINE]"
    by (simp add: wildState_def mkCard_def)
  have h3: "[mkCard HEARTS TWO, mkCard DIAMONDS TWO, mkCard DIAMONDS NINE] \<noteq> []" by simp
  note t = bestSuit_spec [of "[mkCard HEARTS TWO, mkCard DIAMONDS TWO, mkCard DIAMONDS NINE]"
        "mkCard CLUBS EIGHT" wildState]
  note a = t [THEN conjunct1]
  note b = t [THEN conjunct2, THEN conjunct1]
  note c = t [THEN conjunct2, THEN conjunct2, rule_format, OF h1 h2 h3]
  show ?thesis
    using h1 h2 a [unfolded b] c [unfolded b] by blast
qed

section \<open>The 52 cards\<close>

text \<open>
  C1. In every configuration reachable from a freshly dealt game by \<^verbatim>\<open>playCard\<close>
  (called, as at both of its call sites, with a card of the acting hand),
  \<^verbatim>\<open>drawCard\<close>, \<^verbatim>\<open>selectWildSuit\<close>, \<^verbatim>\<open>surrender\<close>, the computer's deferred
  suit update, a new deal and the return to the start screen, the deck, the two hands and
  the discard pile hold 52 cards together. (\<open>initGame_total\<close>: the deal always returns
  a state.)
\<close>

theorem reachable_cardTotal:
  assumes "reachable (s, pending)"
  shows "cardTotal s = 52"
proof -
  have "mset (allCards s) = mset orderedDeck"
    using reachable_cards [OF assms] by simp
  then have "size (mset (allCards s)) = size (mset orderedDeck)" by simp
  then have "length (allCards s) = 52"
    by (simp add: length_orderedDeck)
  then show ?thesis by (simp add: cardTotal_def allCards_def)
qed

theorem reachable_cardTotal_witness:
  "reachable (exampleStart, []) \<and> cardTotal exampleStart = 52"
proof -
  have h: "reachable (exampleStart, [])"
    using initGame_example by (rule reachable.start)
  show ?thesis using h reachable_cardTotal [OF h] by simp
qed

section \<open>The active suit\<close>

text \<open>
  C9, as amended. In every reachable configuration with no deferred suit update of the
  computer pending, the active suit is one of the four suits; when the computer plays an
  EIGHT that is not its last card, \<^verbatim>\<open>playCard\<close> sets the active suit to null and
  leaves the status PLAYING; the deferred update sets it to the suit it carries; before
  the first deal it is null.
\<close>

theorem reachable_activeSuit_valid:
  "(reachable (s, pending) \<longrightarrow> pending = [] \<longrightarrow> (\<exists>su. activeSuit s = Some su)) \<and>
   (rank c = EIGHT \<longrightarrow> filter (\<lambda>x. cardId x \<noteq> cardId c) (aiHand s') \<noteq> [] \<longrightarrow>
      activeSuit (fst (playCard s' c False)) = None \<and>
      status (fst (playCard s' c False)) = PLAYING) \<and>
   activeSuit (wildTimeout best s) = Some best \<and>
   activeSuit initialState = None"
proof -
  have a: "reachable (s, pending) \<longrightarrow> pending = [] \<longrightarrow> (\<exists>su. activeSuit s = Some su)"
    using reachable_activeSuit [of "(s, pending)"] by auto
  have b: "rank c = EIGHT \<longrightarrow> filter (\<lambda>x. cardId x \<noteq> cardId c) (aiHand s') \<noteq> [] \<longrightarrow>
      activeSuit (fst (playCard s' c False)) = None \<and>
      status (fst (playCard s' c False)) = PLAYING"
    by (simp add: playCard_def Let_def)
  have c: "activeSuit (wildTimeout best s) = Some best"
    by (simp add: wildTimeout_def)
  have d: "activeSuit initialState = None"
    by (simp add: initialState_def)
  from a b c d show ?thesis by blast
qed

theorem reachable_activeSuit_valid_witness:
  "reachable (exampleStart, []) \<and> activeSuit exampleStart = Some DIAMONDS \<and>
   rank (mkCard HEARTS EIGHT) = EIGHT \<and>
   filter (\<lambda>x. cardId x \<noteq> cardId (mkCard HEARTS EIGHT)) (aiHand afterPlayerFour) \<noteq> [] \<and>
   activeSuit (fst (playCard afterPlayerFour (mkCard HEARTS EIGHT) False)) = None \<and>
   status (fst (playCard afterPlayerFour (mkCard HEARTS EIGHT) False)) = PLAYING"
proof -
  have h: "reachable (exampleStart, [])"
    using initGame_example by (rule reachable.start)
  have a: "activeSuit exampleStart = Some DIAMONDS"
    by (simp add: exampleStart_def)
  have h1: "rank (mkCard HEARTS EIGHT) = EIGHT" by (simp add: mkCard_def)
  have h2: "filter (\<lambda>x. cardId x \<noteq> cardId (mkCard HEARTS EIGHT)) (aiHand afterPlayerFour) \<noteq> []"
    by code_simp
  note t = reachable_activeSuit_valid [of exampleStart "[]" "mkCard HEARTS EIGHT" afterPlayerFour]
  note p = t [THEN conjunct1, rule_format, OF h refl]
  note q = t [THEN conjunct2, THEN conjunct1, rule_format, OF h1 h2]
  show ?thesis using h a h1 h2 p q by blast
qed

text \<open>
  C9, as stated, fails. After the deal \<open>exampleStart\<close> the player plays the 4 of hearts
  on the 4 of diamonds and the computer answers with the 8 of hearts, both playable and
  in turn: the state then set has status PLAYING and a null active suit, until the update
  scheduled one second later runs.
\<close>

theorem activeSuit_null_counterexample:
  "checkPlayable exampleStart (mkCard HEARTS FOUR) = Inr True \<and>
   currentTurn afterPlayerFour = AI \<and>
   checkPlayable afterPlayerFour (mkCard HEARTS EIGHT) = Inr True \<and>
   reachable (afterAiEight, [HEARTS]) \<and> status afterAiEight = PLAYING \<and>
   activeSuit afterAiEight = None"
proof -
  have r0: "reachable (exampleStart, [])"
    using initGame_example by (rule reachable.start)
  have m1: "mkCard HEARTS FOUR \<in> set (if True then playerHand exampleStart else aiHand exampleStart)"
    by code_simp
  have r1: "reachable (afterPlayerFour, [])"
    using reachable.play [OF r0 m1 afterPlayerFour_eq] by simp
  have m2: "mkCard HEARTS EIGHT \<in> set (if False then playerHand afterPlayerFour else aiHand afterPlayerFour)"
    by code_simp
  have r2: "reachable (afterAiEight, [HEARTS])"
    using reachable.play [OF r1 m2 afterAiEight_eq] by simp
  have "checkPlayable exampleStart (mkCard HEARTS FOUR) = Inr True" by code_simp
  moreover have "currentTurn afterPlayerFour = AI" by code_simp
  moreover have "checkPlayable afterPlayerFour (mkCard HEARTS EIGHT) = Inr True" by code_simp
  moreover have "status afterAiEight = PLAYING" by code_simp
  moreover have "activeSuit afterAiEight = None" by code_simp
  ultimately show ?thesis using r2 by simp
qed

section \<open>Moves that are not rejected\<close>

text \<open>
  C7, as amended. \<^verbatim>\<open>playCard\<close> checks neither that the card is in the acting hand nor
  that it is playable, and returns no failure: for every state, card and actor the card
  is appended to the discard pile, so the state is never left as it was, and the acting
  hand loses exactly the cards that carry the played card's identifier; the other hand
  and the deck stay as they are. Legality is left to the code that calls
  \<^verbatim>\<open>playCard\<close>.
\<close>

theorem playCard_unchecked:
  "discardPile (fst (playCard s c isPlayer)) = discardPile s @ [c] \<and>
   fst (playCard s c isPlayer) \<noteq> s \<and>
   playerHand (fst (playCard s c True)) = filter (\<lambda>x. cardId x \<noteq> cardId c) (playerHand s) \<and>
   aiHand (fst (playCard s c False)) = filter (\<lambda>x. cardId x \<noteq> cardId c) (aiHand s) \<and>
   aiHand (fst (playCard s c True)) = aiHand s \<and>
   playerHand (fst (playCard s c False)) = playerHand s \<and>
   deck (fst (playCard s c isPlayer)) = deck s"
proof -
  have d: "discardPile (fst (playCard s c isPlayer)) = discardPile s @ [c]"
    by (simp add: playCard_def Let_def)
  then have "discardPile (fst (playCard s c isPlayer)) \<noteq> discardPile s" by simp
  then have n: "fst (playCard s c isPlayer) \<noteq> s" by auto
  have p: "playerHand (fst (playCard s c True)) =
      filter (\<lambda>x. cardId x \<noteq> cardId c) (playerHand s)"
    by (simp add: playCard_def Let_def)
  have a: "aiHand (fst (playCard s c False)) = filter (\<lambda>x. cardId x \<noteq> cardId c) (aiHand s)"
    by (simp add: playCard_def Let_def)
  have o1: "aiHand (fst (playCard s c True)) = aiHand s"
    by (simp add: playCard_def Let_def)
  have o2: "playerHand (fst (playCard s c False)) = playerHand s"
    by (simp add: playCard_def Let_def)
  have k: "deck (fst (playCard s c isPlayer)) = deck s"
    by (simp add: playCard_def Let_def)
  from d n p a o1 o2 k show ?thesis by blast
qed

text \<open>
  C7, as stated, fails. After the deal \<open>exampleStart\<close> and the player's 4 of hearts it is
  the computer's turn; the ace of diamonds is in its hand and not playable (the active
  suit is HEARTS, the top card a 4). \<^verbatim>\<open>playCard\<close> does not reject it: the ace goes to
  the discard pile, DIAMONDS becomes the active suit and the turn passes to the player.
\<close>

theorem playCard_no_rejection_counterexample:
  "reachable (afterPlayerFour, []) \<and>
   currentTurn afterPlayerFour = AI \<and> status afterPlayerFour = PLAYING \<and>
   mkCard DIAMONDS ACE \<in> set (aiHand afterPlayerFour) \<and>
   checkPlayable afterPlayerFour (mkCard DIAMONDS ACE) = Inr False \<and>
   fst (playCard afterPlayerFour (mkCard DIAMONDS ACE) False) \<noteq> afterPlayerFour \<and>
   discardPile (fst (playCard afterPlayerFour (mkCard DIAMONDS ACE) False)) =
     [mkCard DIAMONDS FOUR, mkCard HEARTS FOUR, mkCard DIAMONDS ACE] \<and>
   activeSuit (fst (playCard afterPlayerFour (mkCard DIAMONDS ACE) False)) = Some DIAMONDS \<and>
   currentTurn (fst (playCard afterPlayerFour (mkCard DIAMONDS ACE) False)) = PLAYER"
proof -
  have a: "currentTurn afterPlayerFour = AI" by code_simp
  have b: "status afterPlayerFour = PLAYING" by code_simp
  have c: "mkCard DIAMONDS ACE \<in> set (aiHand afterPlayerFour)" by code_simp
  have d: "checkPlayable afterPlayerFour (mkCard DIAMONDS ACE) = Inr False" by code_simp
  have e: "discardPile (fst (playCard afterPlayerFour (mkCard DIAMONDS ACE) False)) =
     [mkCard DIAMONDS FOUR, mkCard HEARTS FOUR, mkCard DIAMONDS ACE]" by code_simp
  have f: "activeSuit (fst (playCard afterPlayerFour (mkCard DIAMONDS ACE) False)) = Some DIAMONDS"
    by code_simp
  have g: "currentTurn (fst (playCard afterPlayerFour (mkCard DIAMONDS ACE) False)) = PLAYER"
    by code_simp
  have "currentTurn (fst (playCard afterPlayerFour (mkCard DIAMONDS ACE) False)) \<noteq>
        currentTurn afterPlayerFour"
    by (simp only: a g) simp
  then have n: "fst (playCard afterPlayerFour (mkCard DIAMONDS ACE) False) \<noteq> afterPlayerFour"
    by auto
  from reachable_afterPlayerFour a b c d n e f g show ?thesis by blast
qed




end
